theory Spec2Isabelle
  imports Main "HOL-Library.Signed_Division"
begin

section \<open>C integer types\<close>

text \<open>
  The moving average \<open>MA<T>\<close> is a template over the sample type \<open>T\<close>.  An integer
  instantiation is described by its signedness and its width in bits; a value of the
  type is the \<open>int\<close> it denotes.  \<open>conv\<close> is the C conversion of an integer value to the
  type (reduction modulo \<open>2 ^ w\<close>, read as two's complement for a signed type), so every
  cast, assignment and arithmetic result of the source is a \<open>conv\<close> in the model.
  The target's \<open>int\<close> is taken to be 32 bits wide (ESP32, ARM); this matters only for the
  product \<open>init * m_n\<close> of the constructors and of \<open>setValue\<close>.
\<close>

datatype ity = Signed nat | Unsigned nat

fun conv :: "ity \<Rightarrow> int \<Rightarrow> int" where
  "conv (Signed w) x = signed_take_bit (w - 1) x"
| "conv (Unsigned w) x = take_bit w x"

fun in_range :: "ity \<Rightarrow> int \<Rightarrow> bool" where
  "in_range (Signed w) x \<longleftrightarrow> - (2 ^ (w - 1)) \<le> x \<and> x < 2 ^ (w - 1)"
| "in_range (Unsigned w) x \<longleftrightarrow> 0 \<le> x \<and> x < 2 ^ w"

fun sizeof :: "ity \<Rightarrow> nat" where
  "sizeof (Signed w) = w div 8"
| "sizeof (Unsigned w) = w div 8"

text \<open>\<open>(int32_t) x\<close>, \<open>(uint32_t) x\<close> and the wrap-around of a \<open>uint16_t\<close> counter.\<close>

definition i32 :: "int \<Rightarrow> int" where
  "i32 x = conv (Signed 32) x"

definition u32 :: "int \<Rightarrow> int" where
  "u32 x = conv (Unsigned 32) x"

definition u16 :: "nat \<Rightarrow> nat" where
  "u16 n = n mod 65536"

section \<open>The moving average \<open>MA<T>\<close>\<close>

text \<open>
  The three revisions of the class (\<open>src/MakerMatty_MA.h\<close>, called r1 below, and the two
  later ones, r2 and r3, the last with copy and move operations) have the same six
  members; r1 names them without the \<open>m_\<close> prefix.  \<open>m_data\<close> is the owned array, \<open>None\<close>
  for \<open>nullptr\<close>; an object owns its array exclusively, so the array is kept by value.
\<close>

record MA =
  m_n :: nat
  m_data :: "int list option"
  m_index :: nat
  m_sum :: int
  m_filled :: bool
  m_value :: int

datatype fault = NullPointer | OutOfBounds | DivisionByZero

text \<open>
  \<open>new T[n]\<close> for an integer \<open>T\<close> leaves the \<open>n\<close> elements indeterminate.  The model
  takes their contents as a parameter \<open>junk\<close>: whatever was in the storage before.
  Allocation is assumed to succeed.
\<close>

definition new_array :: "ity \<Rightarrow> (nat \<Rightarrow> int) \<Rightarrow> nat \<Rightarrow> int list" where
  "new_array T junk n = map (\<lambda>i. conv T (junk i)) [0..<n]"

text \<open>The loop \<open>for (i = 0; i < m_n; i++) m_data[i] = val;\<close>\<close>

definition fill :: "int list \<Rightarrow> nat \<Rightarrow> int \<Rightarrow> int list" where
  "fill buf n val = foldl (\<lambda>b i. b[i := val]) buf [0..<n]"

text \<open>
  \<open>memset(m_data, 0, nbytes)\<close> clears the first \<open>nbytes\<close> bytes of the array.  On a
  little-endian target an element of which only the first \<open>z\<close> bytes are cleared keeps
  its upper bytes.
\<close>

definition clear_low_bytes :: "ity \<Rightarrow> nat \<Rightarrow> int \<Rightarrow> int" where
  "clear_low_bytes T z x =
     conv T (push_bit (8 * z) (drop_bit (8 * z) (conv (Unsigned (8 * sizeof T)) x)))"

definition memset0 :: "ity \<Rightarrow> int list \<Rightarrow> nat \<Rightarrow> int list" where
  "memset0 T buf nbytes =
     map (\<lambda>i. clear_low_bytes T (min (sizeof T) (nbytes - i * sizeof T)) (buf ! i))
       [0..<length buf]"

subsection \<open>Constructors\<close>

text \<open>
  r1, \<open>src/MakerMatty_MA.h\<close>: the length is clamped to at least 1, the array is not
  cleared, the sum is accumulated in the filling loop through a \<open>uint32_t\<close> cast, and
  \<open>value\<close> keeps its member initialiser 0.
\<close>

definition MA_r1 :: "ity \<Rightarrow> (nat \<Rightarrow> int) \<Rightarrow> nat \<Rightarrow> int \<Rightarrow> MA" where
  "MA_r1 T junk len init =
     (let n = (if 1 \<le> len then len else 1);
          dat = new_array T junk n;
          (dat', sum') =
            (if init \<noteq> 0
             then foldl (\<lambda>(b, s) i. let b' = b[i := init] in (b', i32 (u32 (u32 s + u32 (b' ! i)))))
                    (dat, 0) [0..<n]
             else (dat, 0))
      in \<lparr>m_n = n, m_data = Some dat', m_index = 0, m_sum = sum',
          m_filled = (init \<noteq> 0), m_value = 0\<rparr>)"

text \<open>
  r2: the length is clamped; a seeded object caches the seed; an unseeded one clears
  \<open>m_n\<close> bytes (not elements) of the array.
\<close>

definition MA_r2 :: "ity \<Rightarrow> (nat \<Rightarrow> int) \<Rightarrow> nat \<Rightarrow> int \<Rightarrow> MA" where
  "MA_r2 T junk len init =
     (let n = (if 1 \<le> len then len else 1);
          dat = new_array T junk n
      in if init \<noteq> 0
         then \<lparr>m_n = n, m_data = Some (fill dat n init), m_index = 0,
               m_sum = i32 (init * int n), m_filled = True, m_value = init\<rparr>
         else \<lparr>m_n = n, m_data = Some (memset0 T dat n), m_index = 0,
               m_sum = 0, m_filled = False, m_value = 0\<rparr>)"

text \<open>
  r3: the default constructor, and the constructor from a length, which takes the length
  as it is and clears \<open>m_n * sizeof(T)\<close> bytes.
\<close>

definition MA_default :: MA where
  "MA_default = \<lparr>m_n = 0, m_data = None, m_index = 0, m_sum = 0,
                  m_filled = False, m_value = 0\<rparr>"

definition MA_r3 :: "ity \<Rightarrow> (nat \<Rightarrow> int) \<Rightarrow> nat \<Rightarrow> int \<Rightarrow> MA" where
  "MA_r3 T junk n init =
     (let dat = new_array T junk n
      in if init \<noteq> 0
         then \<lparr>m_n = n, m_data = Some (fill dat n init), m_index = 0,
               m_sum = i32 (init * int n), m_filled = True, m_value = init\<rparr>
         else \<lparr>m_n = n, m_data = Some (memset0 T dat (n * sizeof T)), m_index = 0,
               m_sum = 0, m_filled = False, m_value = 0\<rparr>)"

subsection \<open>update, getValue, setValue\<close>

text \<open>
  \<open>update\<close> is the same in the three revisions.  Reading through a null pointer,
  indexing outside the array and dividing by zero are undefined in C++; the model
  reports them as a \<open>fault\<close>.  The arithmetic on \<open>m_sum\<close> is \<open>int32_t\<close> arithmetic,
  with wrap-around; the division truncates towards zero.
\<close>

definition MA_update :: "ity \<Rightarrow> MA \<Rightarrow> int \<Rightarrow> fault + (MA \<times> int)" where
  "MA_update T ma val =
     (let wrapped = (m_n ma \<le> m_index ma);
          idx = (if wrapped then 0 else m_index ma);
          fl = (wrapped \<or> m_filled ma)
      in case m_data ma of
           None \<Rightarrow> Inl NullPointer
         | Some buf \<Rightarrow>
             if length buf \<le> idx then Inl OutOfBounds
             else
               let s = i32 (i32 (m_sum ma - i32 (buf ! idx)) + i32 val);
                   buf' = buf[idx := val];
                   idx' = u16 (idx + 1);
                   d = (if fl then i32 (int (m_n ma)) else i32 (int idx'))
               in if d = 0 then Inl DivisionByZero
                  else
                    let v = conv T (s sdiv d)
                    in Inr (\<lparr>m_n = m_n ma, m_data = Some buf', m_index = idx', m_sum = s,
                             m_filled = fl, m_value = v\<rparr>, v))"

definition MA_getValue :: "MA \<Rightarrow> int" where
  "MA_getValue ma = m_value ma"

text \<open>\<open>setValue\<close> (r2 and r3).  With \<open>m_n = 0\<close> the loop does not run.\<close>

definition MA_setValue :: "MA \<Rightarrow> int \<Rightarrow> fault + MA" where
  "MA_setValue ma val =
     (case m_data ma of
        None \<Rightarrow> if m_n ma = 0
                then Inr (ma\<lparr>m_sum := i32 (val * int (m_n ma)), m_filled := True, m_value := val\<rparr>)
                else Inl NullPointer
      | Some buf \<Rightarrow>
          if length buf < m_n ma then Inl OutOfBounds
          else Inr (ma\<lparr>m_data := Some (fill buf (m_n ma) val),
                       m_sum := i32 (val * int (m_n ma)), m_filled := True, m_value := val\<rparr>))"

text \<open>A run of \<open>update\<close> calls: the object after the last one and the values returned.\<close>

fun MA_updates :: "ity \<Rightarrow> MA \<Rightarrow> int list \<Rightarrow> fault + (MA \<times> int list)" where
  "MA_updates T ma [] = Inr (ma, [])"
| "MA_updates T ma (v # vs) =
     (case MA_update T ma v of
        Inl e \<Rightarrow> Inl e
      | Inr (ma', r) \<Rightarrow>
          (case MA_updates T ma' vs of
             Inl e \<Rightarrow> Inl e
           | Inr (ma'', rs) \<Rightarrow> Inr (ma'', r # rs)))"

subsection \<open>Move construction and move assignment (r3)\<close>

text \<open>
  Both moves take each member of the source with \<open>std::exchange\<close>, which leaves 0,
  \<open>false\<close> or \<open>nullptr\<close> behind.  \<open>move_members\<close> gives the members taken and the source
  afterwards.  The move constructor builds a new object, so it cannot alias its source.
  Move assignment is called on an existing object and guards against being given
  itself; objects live in a store indexed by address to make that case expressible.
\<close>

definition move_members :: "MA \<Rightarrow> MA \<times> MA" where
  "move_members other =
     (\<lparr>m_n = m_n other, m_data = m_data other, m_index = m_index other,
       m_sum = m_sum other, m_filled = m_filled other, m_value = m_value other\<rparr>,
      \<lparr>m_n = 0, m_data = None, m_index = 0, m_sum = 0, m_filled = False, m_value = 0\<rparr>)"

definition MA_move :: "MA \<Rightarrow> MA \<times> MA" where
  "MA_move other = move_members other"

type_synonym store = "nat \<Rightarrow> MA"

definition MA_move_assign :: "store \<Rightarrow> nat \<Rightarrow> nat \<Rightarrow> store" where
  "MA_move_assign st this other =
     (if this = other then st
      else let (taken, left) = move_members (st other)
           in st(this := taken, other := left))"

section \<open>The exponential moving average \<open>EMA\<close>\<close>

text \<open>
  \<open>EMA\<close> computes in \<open>float\<close> and \<open>double\<close>.  The model is parametric in the
  floating-point arithmetic: \<open>'f\<close> is \<open>float\<close>, \<open>'d\<close> is \<open>double\<close>, and the conversions
  and operations the source uses are the fields of \<open>fp\<close>.  What is proved for every
  \<open>fp\<close> holds for the arithmetic of the target.
\<close>

record ('f, 'd) fp =
  i2f :: "int \<Rightarrow> 'f"
  i2d :: "int \<Rightarrow> 'd"
  f2d :: "'f \<Rightarrow> 'd"
  d2f :: "'d \<Rightarrow> 'f"
  fmul :: "'f \<Rightarrow> 'f \<Rightarrow> 'f"
  fsub :: "'f \<Rightarrow> 'f \<Rightarrow> 'f"
  dadd :: "'d \<Rightarrow> 'd \<Rightarrow> 'd"
  dsub :: "'d \<Rightarrow> 'd \<Rightarrow> 'd"
  dmul :: "'d \<Rightarrow> 'd \<Rightarrow> 'd"
  ddiv :: "'d \<Rightarrow> 'd \<Rightarrow> 'd"

text \<open>
  The members: \<open>ema_n\<close> is \<open>n\<close> (\<open>m_n\<close> in the second revision) and \<open>ema_v0\<close>, \<open>ema_v1\<close>,
  \<open>ema_v2\<close> are \<open>value[0]\<close>, \<open>value[1]\<close>, \<open>value[2]\<close> (\<open>m_values\<close>).
\<close>

record 'f EMA =
  ema_n :: int
  ema_v0 :: 'f
  ema_v1 :: 'f
  ema_v2 :: 'f

definition EMA_setValue :: "'f EMA \<Rightarrow> 'f \<Rightarrow> 'f EMA" where
  "EMA_setValue e val = e\<lparr>ema_v0 := val, ema_v1 := val, ema_v2 := val\<rparr>"

text \<open>The default constructor, the same in both revisions.\<close>

definition EMA_default :: "('f, 'd) fp \<Rightarrow> 'f EMA" where
  "EMA_default a = \<lparr>ema_n = 1, ema_v0 = i2f a 0, ema_v1 = i2f a 0, ema_v2 = i2f a 0\<rparr>"

text \<open>
  The first revision's \<open>EMA(int n, float val)\<close> has the body \<open>n = n;\<close>, in which both
  sides are the parameter: the member \<open>n\<close> is not assigned and keeps the indeterminate
  content \<open>junk_n\<close> of the object's storage.
\<close>

definition EMA_r1 :: "int \<Rightarrow> int \<Rightarrow> 'f \<Rightarrow> 'f EMA" where
  "EMA_r1 junk_n n val = \<lparr>ema_n = junk_n, ema_v0 = val, ema_v1 = val, ema_v2 = val\<rparr>"

text \<open>The second revision initialises \<open>m_n(n)\<close> and calls \<open>setValue\<close>.\<close>

definition EMA_r2 :: "(nat \<Rightarrow> 'f) \<Rightarrow> int \<Rightarrow> 'f \<Rightarrow> 'f EMA" where
  "EMA_r2 junk n val =
     EMA_setValue \<lparr>ema_n = n, ema_v0 = junk 0, ema_v1 = junk 1, ema_v2 = junk 2\<rparr> val"

text \<open>
  \<open>update\<close>: \<open>2.0 / (n + 1)\<close> is a \<open>double\<close> division narrowed to the \<open>float\<close> \<open>k\<close>;
  \<open>val * k\<close> is a \<open>float\<close> product; \<open>1.0 - k\<close>, the second product and the sum are
  \<open>double\<close>; the result is narrowed to \<open>float\<close>.  The literals \<open>2.0\<close> and \<open>1.0\<close> are
  the doubles of the integers 2 and 1, and \<open>n + 1\<close> is \<open>int\<close> arithmetic.  In the first
  revision the function is \<open>void\<close>, in the second it returns the new \<open>m_values[0]\<close>.
\<close>

definition smoothing :: "('f, 'd) fp \<Rightarrow> int \<Rightarrow> 'f" where
  "smoothing a n = d2f a (ddiv a (i2d a 2) (i2d a (i32 (n + 1))))"

definition blend :: "('f, 'd) fp \<Rightarrow> 'f \<Rightarrow> 'f \<Rightarrow> 'f \<Rightarrow> 'f" where
  "blend a val k prev =
     d2f a (dadd a (f2d a (fmul a val k)) (dmul a (f2d a prev) (dsub a (i2d a 1) (f2d a k))))"

definition EMA_update_r1 :: "('f, 'd) fp \<Rightarrow> 'f EMA \<Rightarrow> 'f \<Rightarrow> 'f EMA" where
  "EMA_update_r1 a e val =
     (let e1 = e\<lparr>ema_v2 := ema_v1 e\<rparr>;
          e2 = e1\<lparr>ema_v1 := ema_v0 e1\<rparr>;
          k = smoothing a (ema_n e2)
      in e2\<lparr>ema_v0 := blend a val k (ema_v1 e2)\<rparr>)"

definition EMA_update :: "('f, 'd) fp \<Rightarrow> 'f EMA \<Rightarrow> 'f \<Rightarrow> 'f EMA \<times> 'f" where
  "EMA_update a e val =
     (let e1 = e\<lparr>ema_v2 := ema_v1 e\<rparr>;
          e2 = e1\<lparr>ema_v1 := ema_v0 e1\<rparr>;
          k = smoothing a (ema_n e2);
          e3 = e2\<lparr>ema_v0 := blend a val k (ema_v1 e2)\<rparr>
      in (e3, ema_v0 e3))"

definition EMA_getValue :: "'f EMA \<Rightarrow> 'f" where
  "EMA_getValue e = ema_v0 e"

definition EMA_getSlope :: "('f, 'd) fp \<Rightarrow> 'f EMA \<Rightarrow> 'f" where
  "EMA_getSlope a e = fsub a (ema_v0 e) (ema_v1 e)"

definition EMA_getCurve :: "('f, 'd) fp \<Rightarrow> 'f EMA \<Rightarrow> 'f" where
  "EMA_getCurve a e =
     fsub a (fsub a (ema_v0 e) (ema_v1 e)) (fsub a (ema_v1 e) (ema_v2 e))"

subsection \<open>An arithmetic for integer-valued floats\<close>

text \<open>
  IEEE 754 operations are correctly rounded, so an operation whose exact result is
  representable returns it.  Every integer of magnitude at most \<open>2 ^ 24\<close> is a \<open>float\<close>
  and every integer of magnitude at most \<open>2 ^ 53\<close> is a \<open>double\<close>.  \<open>small_ints\<close> is the
  arithmetic restricted to those values: \<open>Exact i\<close> is the float or double equal to the
  integer \<open>i\<close> (both zeros for \<open>i = 0\<close>), and \<open>Other\<close> stands for every result that is
  not such an integer (a fraction, a rounded value, an infinity, a NaN), about which
  the model says nothing.
\<close>

datatype fval = Exact int | Other

definition as_float :: "int \<Rightarrow> fval" where
  "as_float i = (if \<bar>i\<bar> \<le> 2 ^ 24 then Exact i else Other)"

definition as_double :: "int \<Rightarrow> fval" where
  "as_double i = (if \<bar>i\<bar> \<le> 2 ^ 53 then Exact i else Other)"

fun lift2 :: "(int \<Rightarrow> fval) \<Rightarrow> (int \<Rightarrow> int \<Rightarrow> int) \<Rightarrow> fval \<Rightarrow> fval \<Rightarrow> fval" where
  "lift2 r f (Exact x) (Exact y) = r (f x y)"
| "lift2 r f _ _ = Other"

fun narrow :: "fval \<Rightarrow> fval" where
  "narrow (Exact x) = as_float x"
| "narrow Other = Other"

fun quotient :: "fval \<Rightarrow> fval \<Rightarrow> fval" where
  "quotient (Exact x) (Exact y) = (if y \<noteq> 0 \<and> y dvd x then as_double (x div y) else Other)"
| "quotient _ _ = Other"

definition small_ints :: "(fval, fval) fp" where
  "small_ints =
     \<lparr>i2f = as_float, i2d = as_double, f2d = (\<lambda>x. x), d2f = narrow,
      fmul = lift2 as_float (*), fsub = lift2 as_float (-),
      dadd = lift2 as_double (+), dsub = lift2 as_double (-),
      dmul = lift2 as_double (*), ddiv = quotient\<rparr>"

section \<open>Observations and specification-side notions\<close>

text \<open>What a run of \<open>update\<close> calls shows to the caller.\<close>

definition results :: "fault + (MA \<times> int list) \<Rightarrow> int list option" where
  "results out = (case out of Inl e \<Rightarrow> None | Inr (ma, rs) \<Rightarrow> Some rs)"

definition last_result :: "fault + (MA \<times> int list) \<Rightarrow> int option" where
  "last_result out =
     (case out of Inl e \<Rightarrow> None
      | Inr (ma, rs) \<Rightarrow> if rs = [] then None else Some (last rs))"

definition value_after :: "fault + (MA \<times> int list) \<Rightarrow> int option" where
  "value_after out = (case out of Inl e \<Rightarrow> None | Inr (ma, rs) \<Rightarrow> Some (MA_getValue ma))"

text \<open>
  The slot that the next \<open>update\<close> reads and writes, and the number it divides by, as
  functions of the object before the call.
\<close>

definition update_slot :: "MA \<Rightarrow> nat" where
  "update_slot ma = (if m_n ma \<le> m_index ma then 0 else m_index ma)"

definition update_divisor :: "MA \<Rightarrow> int" where
  "update_divisor ma =
     (if m_n ma \<le> m_index ma \<or> m_filled ma then i32 (int (m_n ma))
      else i32 (int (u16 (update_slot ma + 1))))"

text \<open>
  From the specification: the arithmetic mean with truncating division, the \<open>n\<close> most
  recent of the values pushed (oldest first), the number of samples the window holds,
  and the exact sum of the values stored for them.
\<close>

definition mean :: "int list \<Rightarrow> int" where
  "mean vs = sum_list vs sdiv int (length vs)"

definition newest :: "nat \<Rightarrow> int list \<Rightarrow> int list" where
  "newest n vs = drop (length vs - n) vs"

definition samples_held :: "MA \<Rightarrow> nat" where
  "samples_held ma = (if m_filled ma then m_n ma else m_index ma)"

definition stored_sum :: "MA \<Rightarrow> int" where
  "stored_sum ma =
     (case m_data ma of None \<Rightarrow> 0 | Some buf \<Rightarrow> sum_list (take (samples_held ma) buf))"

text \<open>
  The states of an r3 object of capacity \<open>n\<close> over sample type \<open>T\<close>: constructed, then
  any number of successful \<open>update\<close> and \<open>setValue\<close> calls with values of type \<open>T\<close>.
\<close>

inductive reachable :: "ity \<Rightarrow> nat \<Rightarrow> MA \<Rightarrow> bool" for T :: ity and n :: nat where
  constructed:
    "1 \<le> n \<Longrightarrow> n < 65536 \<Longrightarrow> in_range T init \<Longrightarrow> reachable T n (MA_r3 T junk n init)"
| updated:
    "reachable T n ma \<Longrightarrow> in_range T val \<Longrightarrow> MA_update T ma val = Inr (ma', r)
     \<Longrightarrow> reachable T n ma'"
| value_set:
    "reachable T n ma \<Longrightarrow> in_range T val \<Longrightarrow> MA_setValue ma val = Inr ma'
     \<Longrightarrow> reachable T n ma'"

subsection \<open>Invariants used in the proofs\<close>

text \<open>The object has a capacity between 1 and 65535 and an array of that length.\<close>

definition sound :: "nat \<Rightarrow> MA \<Rightarrow> bool" where
  "sound n ma \<longleftrightarrow>
     1 \<le> n \<and> n < 65536 \<and> m_n ma = n \<and> map_option length (m_data ma) = Some n"

text \<open>
  \<open>m_sum\<close> is the sum of the whole array in \<open>int32_t\<close> arithmetic, and until the array
  has been filled once the slots not yet written hold 0.
\<close>

definition sum_inv :: "nat \<Rightarrow> MA \<Rightarrow> bool" where
  "sum_inv n ma \<longleftrightarrow>
     sound n ma \<and> m_index ma \<le> n \<and>
     (\<exists>buf. m_data ma = Some buf \<and> m_sum ma = i32 (sum_list buf) \<and>
        (m_filled ma \<or> drop (m_index ma) buf = replicate (n - m_index ma) 0))"

text \<open>
  The object after the values \<open>vs\<close> have been pushed into an unseeded object: while
  filling, the array is \<open>vs\<close> followed by zeros; afterwards it is the window of the \<open>n\<close>
  most recent values rotated so that the oldest sits at the slot written next.
\<close>

definition ring_inv :: "nat \<Rightarrow> int list \<Rightarrow> MA \<Rightarrow> bool" where
  "ring_inv n vs ma \<longleftrightarrow>
     sound n ma \<and> m_sum ma = i32 (sum_list (newest n vs)) \<and>
     (if length vs < n
      then m_index ma = length vs \<and> \<not> m_filled ma \<and>
           m_data ma = Some (vs @ replicate (n - length vs) 0)
      else 1 \<le> m_index ma \<and> m_index ma \<le> n \<and> (m_filled ma \<or> m_index ma = n) \<and>
           m_data ma =
             Some (drop (n - m_index ma) (newest n vs) @ take (n - m_index ma) (newest n vs)))"

definition window_mean :: "nat \<Rightarrow> int list \<Rightarrow> int" where
  "window_mean n vs = i32 (sum_list (newest n vs)) sdiv int (min (length vs) n)"

subsection \<open>Sample inputs\<close>

text \<open>
  Prior contents of freshly allocated storage, an object that has seen 10, 20, 30, 40
  at address 0 of a store of otherwise empty objects, and the tracker of period 1 and
  seed 0 before and after \<open>update(5)\<close> and \<open>update(10)\<close>.
\<close>

definition stale :: "nat \<Rightarrow> int" where
  "stale i = 77"

definition stale_f :: "nat \<Rightarrow> fval" where
  "stale_f i = Other"

definition demo_store :: store where
  "demo_store a =
     (if a = 0 then \<lparr>m_n = 3, m_data = Some [40, 20, 30], m_index = 1, m_sum = 90,
                      m_filled = True, m_value = 30\<rparr>
      else MA_default)"

definition ema_start :: "fval EMA" where
  "ema_start = EMA_r2 stale_f 1 (Exact 0)"

definition ema_after_5 :: "fval EMA" where
  "ema_after_5 = fst (EMA_update small_ints ema_start (Exact 5))"

definition ema_after_10 :: "fval EMA" where
  "ema_after_10 = fst (EMA_update small_ints ema_after_5 (Exact 10))"

section \<open>Arithmetic and storage lemmas\<close>

lemma i32_idem: "i32 (i32 x) = i32 x"
  by (simp add: i32_def)

lemma i32_add: "i32 (i32 x + i32 y) = i32 (x + y)"
  by (simp add: i32_def signed_take_bit_add)

lemma i32_diff: "i32 (i32 x - i32 y) = i32 (x - y)"
  by (simp add: i32_def signed_take_bit_diff)

lemma i32_sum_step: "i32 (i32 (s - i32 b) + i32 v) = i32 (s - b + v)"
  by (metis i32_add i32_diff i32_idem)

lemma i32_small: "- (2 ^ 31) \<le> x \<Longrightarrow> x < 2 ^ 31 \<Longrightarrow> i32 x = x"
  by (simp add: i32_def signed_take_bit_int_eq_self)

lemma i32_nat: "n < 65536 \<Longrightarrow> i32 (int n) = int n"
  by (simp add: i32_small)

lemma length_new_array: "length (new_array T junk n) = n"
  by (simp add: new_array_def)

lemma fill_Suc: "fill buf (Suc n) v = (fill buf n v)[n := v]"
  by (simp add: fill_def)

lemma length_fill: "length (fill buf n v) = length buf"
  by (induction n) (simp_all add: fill_Suc, simp add: fill_def)

lemma fill_prefix: "n \<le> length buf \<Longrightarrow> fill buf n v = replicate n v @ drop n buf"
proof (induction n)
  case 0
  then show ?case by (simp add: fill_def)
next
  case (Suc n)
  then have "fill buf n v = replicate n v @ drop n buf" by simp
  moreover have "drop n buf = buf ! n # drop (Suc n) buf"
    using Suc.prems by (simp add: Cons_nth_drop_Suc)
  ultimately show ?case
    by (simp add: fill_Suc list_update_append replicate_append_same)
qed

lemma fill_all: "length buf = n \<Longrightarrow> fill buf n v = replicate n v"
  by (simp add: fill_prefix)

lemma clear_all_bytes: "clear_low_bytes T (sizeof T) x = 0"
  by (cases T) (simp_all add: clear_low_bytes_def drop_bit_take_bit)

lemma memset0_all:
  assumes "1 \<le> sizeof T"
  shows "memset0 T buf (length buf * sizeof T) = replicate (length buf) 0"
proof -
  have "min (sizeof T) (length buf * sizeof T - i * sizeof T) = sizeof T" if "i < length buf" for i
  proof -
    have "(length buf - i) * sizeof T \<ge> 1 * sizeof T"
      using that by (intro mult_le_mono1) simp
    then show ?thesis by (simp add: diff_mult_distrib)
  qed
  then have "memset0 T buf (length buf * sizeof T) = map (\<lambda>i. 0) [0..<length buf]"
    unfolding memset0_def by (intro map_cong) (simp_all add: clear_all_bytes)
  then show ?thesis by (simp add: map_replicate_const)
qed

lemma i32_zero: "i32 0 = 0"
  by (simp add: i32_def)

lemma i32_u32_add: "i32 (u32 (u32 (i32 x) + u32 y)) = i32 (x + y)"
proof -
  have "take_bit 32 (take_bit 32 (signed_take_bit 31 x) + take_bit 32 y) = take_bit 32 (x + y)"
    by (simp add: take_bit_signed_take_bit take_bit_add)
  then show ?thesis
    by (simp add: i32_def u32_def signed_take_bit_take_bit)
qed

lemma sum_list_replicate_int: "sum_list (replicate k (v::int)) = v * int k"
  by (induction k) (simp_all add: algebra_simps)

lemma sum_list_update_int:
  "k < length xs \<Longrightarrow> sum_list (xs[k := x]) = sum_list xs - xs ! k + (x::int)"
proof (induction xs arbitrary: k)
  case Nil
  then show ?case by simp
next
  case (Cons a xs)
  then show ?case by (cases k) simp_all
qed

lemma conv_in_range: "in_range T x \<Longrightarrow> conv T x = x"
  by (cases T) (simp_all add: signed_take_bit_int_eq_self take_bit_int_eq_self)

lemma sum_list_bounds:
  fixes vs :: "int list"
  assumes "\<forall>v\<in>set vs. lo \<le> v \<and> v \<le> hi"
  shows "lo * int (length vs) \<le> sum_list vs \<and> sum_list vs \<le> hi * int (length vs)"
  using assms by (induction vs) (auto simp: algebra_simps)

lemma sdiv_bounds:
  fixes s k lo hi :: int
  assumes "0 < k" "lo \<le> 0" "0 \<le> hi" "lo * k \<le> s" "s \<le> hi * k"
  shows "lo \<le> s sdiv k \<and> s sdiv k \<le> hi"
proof (cases "0 \<le> s")
  case True
  then have eq: "s sdiv k = s div k"
    using assms(1) by (simp add: signed_divide_int_def sgn_if)
  have "s div k \<le> hi * k div k" using assms by (intro zdiv_mono1) simp_all
  moreover have "hi * k div k = hi" using assms(1) by simp
  moreover have "0 \<le> s div k" using True assms(1) by (simp add: pos_imp_zdiv_nonneg_iff)
  ultimately show ?thesis using assms(2,3) eq by linarith
next
  case False
  then have eq: "s sdiv k = - ((- s) div k)"
    using assms(1) by (simp add: signed_divide_int_def sgn_if)
  have "(- s) div k \<le> (- lo) * k div k" using assms by (intro zdiv_mono1) simp_all
  moreover have "(- lo) * k div k = - lo" using assms(1) by (simp del: mult_minus_left)
  moreover have "0 \<le> (- s) div k" using False assms(1) by (simp add: pos_imp_zdiv_nonneg_iff)
  ultimately show ?thesis using assms(2,3) eq by linarith
qed

lemma mean_in_range:
  assumes "vs \<noteq> []" "\<forall>v\<in>set vs. in_range T v"
  shows "in_range T (mean vs)"
proof -
  have k: "0 < int (length vs)" using assms(1) by simp
  show ?thesis
  proof (cases T)
    case (Signed w)
    have "\<forall>v\<in>set vs. - (2 ^ (w - 1)) \<le> v \<and> v \<le> 2 ^ (w - 1) - 1"
      using assms(2) Signed by auto
    from sum_list_bounds [OF this]
    have "- (2 ^ (w - 1)) \<le> mean vs \<and> mean vs \<le> 2 ^ (w - 1) - 1"
      unfolding mean_def by (intro sdiv_bounds k) simp_all
    then show ?thesis using Signed by simp
  next
    case (Unsigned w)
    have "\<forall>v\<in>set vs. 0 \<le> v \<and> v \<le> 2 ^ w - 1"
      using assms(2) Unsigned by auto
    from sum_list_bounds [OF this]
    have "0 \<le> mean vs \<and> mean vs \<le> 2 ^ w - 1"
      unfolding mean_def by (intro sdiv_bounds k) simp_all
    then show ?thesis using Unsigned by simp
  qed
qed

lemma newest_short: "length vs \<le> n \<Longrightarrow> newest n vs = vs"
  by (simp add: newest_def)

lemma length_newest: "length (newest n vs) = min n (length vs)"
  by (simp add: newest_def)

lemma newest_snoc:
  assumes "n \<le> length vs" "1 \<le> n"
  shows "newest n (vs @ [v]) = tl (newest n vs) @ [v]"
proof -
  have "drop (Suc (length vs) - n) vs = tl (drop (length vs - n) vs)"
    using assms by (simp add: tl_drop Suc_diff_le drop_Suc)
  then show ?thesis using assms by (simp add: newest_def)
qed

lemma rot_step:
  assumes "length ws = n - 1" "i < n"
  shows "(drop (n - i) (x # ws) @ take (n - i) (x # ws)) ! i = x"
    and "(drop (n - i) (x # ws) @ take (n - i) (x # ws))[i := v] =
           drop (n - Suc i) (ws @ [v]) @ take (n - Suc i) (ws @ [v])"
proof -
  define m where "m = n - Suc i"
  have ni: "n - i = Suc m" using assms by (simp add: m_def)
  have len: "length (drop m ws) = i" using assms by (simp add: m_def)
  have m: "m \<le> length ws" using assms by (simp add: m_def)
  show "(drop (n - i) (x # ws) @ take (n - i) (x # ws)) ! i = x"
    using len by (simp add: ni nth_append)
  show "(drop (n - i) (x # ws) @ take (n - i) (x # ws))[i := v] =
           drop (n - Suc i) (ws @ [v]) @ take (n - Suc i) (ws @ [v])"
    using len m by (simp add: ni list_update_append m_def [symmetric])
qed

section \<open>What the constructors build\<close>

lemma MA_r3_seeded:
  "init \<noteq> 0 \<Longrightarrow> MA_r3 T junk n init =
     \<lparr>m_n = n, m_data = Some (replicate n init), m_index = 0, m_sum = i32 (init * int n),
      m_filled = True, m_value = init\<rparr>"
  by (simp add: MA_r3_def fill_all length_new_array)

lemma MA_r3_unseeded:
  "1 \<le> sizeof T \<Longrightarrow> MA_r3 T junk n 0 =
     \<lparr>m_n = n, m_data = Some (replicate n 0), m_index = 0, m_sum = 0,
      m_filled = False, m_value = 0\<rparr>"
  using memset0_all [of T "new_array T junk n"]
  by (simp add: MA_r3_def length_new_array)

lemma MA_r2_seeded:
  "init \<noteq> 0 \<Longrightarrow> MA_r2 T junk len init =
     \<lparr>m_n = max len 1, m_data = Some (replicate (max len 1) init), m_index = 0,
      m_sum = i32 (init * int (max len 1)), m_filled = True, m_value = init\<rparr>"
  by (auto simp add: MA_r2_def fill_all length_new_array max_def Let_def)

lemma MA_r1_loop:
  "n \<le> length dat \<Longrightarrow>
   foldl (\<lambda>(b, s) i. let b' = b[i := init] in (b', i32 (u32 (u32 s + u32 (b' ! i)))))
     (dat, i32 s0) [0..<n] = (fill dat n init, i32 (s0 + init * int n))"
proof (induction n)
  case 0
  then show ?case by (simp add: fill_def)
next
  case (Suc n)
  then have len: "n < length (fill dat n init)" by (simp add: length_fill)
  have arith: "s0 + init * int n + init = s0 + init * int (Suc n)"
    by (simp add: algebra_simps)
  from Suc have "foldl (\<lambda>(b, s) i. let b' = b[i := init] in (b', i32 (u32 (u32 s + u32 (b' ! i)))))
     (dat, i32 s0) [0..<n] = (fill dat n init, i32 (s0 + init * int n))" by simp
  then show ?case
    using len by (simp add: fill_Suc i32_u32_add arith del: of_nat_Suc)
qed

lemma MA_r1_seeded:
  assumes "init \<noteq> 0"
  shows "MA_r1 T junk len init =
     \<lparr>m_n = max len 1, m_data = Some (replicate (max len 1) init), m_index = 0,
      m_sum = i32 (init * int (max len 1)), m_filled = True, m_value = 0\<rparr>"
proof -
  define n where "n = (if 1 \<le> len then len else 1)"
  have n: "n = max len 1" by (simp add: n_def max_def)
  have z: "i32 0 = 0" by (simp add: i32_def)
  have "foldl (\<lambda>(b, s) i. let b' = b[i := init] in (b', i32 (u32 (u32 s + u32 (b' ! i)))))
     (new_array T junk n, 0) [0..<n] = (replicate n init, i32 (init * int n))"
    using MA_r1_loop [of n "new_array T junk n" init 0]
    by (simp add: z length_new_array fill_all)
  then show ?thesis
    using assms unfolding MA_r1_def n_def [symmetric] Let_def n [symmetric] by simp
qed

lemma MA_r1_unseeded:
  "MA_r1 T junk len 0 =
     \<lparr>m_n = max len 1, m_data = Some (new_array T junk (max len 1)), m_index = 0,
      m_sum = 0, m_filled = False, m_value = 0\<rparr>"
  by (auto simp add: MA_r1_def Let_def max_def)

text \<open>
  When the fresh storage happens to hold zeros, the unseeded objects of the two
  earlier revisions are the one the latest revision builds.
\<close>

lemma new_array_zero:
  "\<forall>i. conv T (junk i) = 0 \<Longrightarrow> new_array T junk n = replicate n 0"
  by (simp add: new_array_def map_replicate_const)

lemma clear_low_bytes_zero: "clear_low_bytes T z 0 = 0"
  by (cases T) (simp_all add: clear_low_bytes_def)

lemma memset0_zero: "memset0 T (replicate n 0) k = replicate n 0"
proof -
  have "memset0 T (replicate n 0) k = map (\<lambda>i. 0) [0..<n]"
    unfolding memset0_def by (intro map_cong) (simp_all add: clear_low_bytes_zero)
  then show ?thesis by (simp add: map_replicate_const)
qed

lemma zeroed_storage_r1_r2:
  assumes "\<forall>i. conv T (junk i) = 0" "1 \<le> c" "1 \<le> sizeof T"
  shows "MA_r1 T junk c 0 = MA_r3 T junk c 0" and "MA_r2 T junk c 0 = MA_r3 T junk c 0"
proof -
  have m: "max c 1 = c" using assms(2) by simp
  show "MA_r1 T junk c 0 = MA_r3 T junk c 0"
    using assms by (simp add: MA_r1_unseeded MA_r3_unseeded new_array_zero m)
  show "MA_r2 T junk c 0 = MA_r3 T junk c 0"
    using assms by (simp add: MA_r2_def MA_r3_unseeded new_array_zero memset0_zero Let_def)
qed

section \<open>update on a sound object\<close>

lemma MA_update_unfold:
  "MA_update T ma val =
     (case m_data ma of
        None \<Rightarrow> Inl NullPointer
      | Some buf \<Rightarrow>
          if length buf \<le> update_slot ma then Inl OutOfBounds
          else if update_divisor ma = 0 then Inl DivisionByZero
          else Inr (\<lparr>m_n = m_n ma, m_data = Some (buf[update_slot ma := val]),
                     m_index = u16 (update_slot ma + 1),
                     m_sum = i32 (m_sum ma - buf ! update_slot ma + val),
                     m_filled = (m_n ma \<le> m_index ma \<or> m_filled ma),
                     m_value = conv T (i32 (m_sum ma - buf ! update_slot ma + val) sdiv update_divisor ma)\<rparr>,
                   conv T (i32 (m_sum ma - buf ! update_slot ma + val) sdiv update_divisor ma)))"
  by (simp add: MA_update_def update_slot_def update_divisor_def Let_def i32_sum_step
           split: option.split)

lemma sound_slot: "sound n ma \<Longrightarrow> update_slot ma < n"
  by (auto simp: sound_def update_slot_def)

lemma sound_divisor:
  assumes "sound n ma"
  shows "update_divisor ma = (if m_n ma \<le> m_index ma \<or> m_filled ma then int n else int (m_index ma) + 1)"
    and "1 \<le> update_divisor ma"
proof -
  have n: "1 \<le> n" "n < 65536" "m_n ma = n" using assms by (auto simp: sound_def)
  show eq: "update_divisor ma = (if m_n ma \<le> m_index ma \<or> m_filled ma then int n else int (m_index ma) + 1)"
  proof (cases "m_n ma \<le> m_index ma \<or> m_filled ma")
    case True
    then show ?thesis using n by (simp add: update_divisor_def i32_nat)
  next
    case False
    then have "m_index ma + 1 < 65536" using n by simp
    then have "i32 (int (u16 (m_index ma + 1))) = int (m_index ma) + 1"
      using i32_nat [of "m_index ma + 1"] by (simp add: u16_def)
    with False show ?thesis by (simp add: update_divisor_def update_slot_def)
  qed
  show "1 \<le> update_divisor ma"
    unfolding eq using n by simp
qed

lemma sound_update:
  assumes "sound n ma"
  shows "\<exists>ma' r. MA_update T ma val = Inr (ma', r) \<and> sound n ma'"
proof -
  obtain buf where buf: "m_data ma = Some buf" "length buf = n"
    using assms by (auto simp: sound_def)
  have "update_slot ma < length buf" using sound_slot [OF assms] buf by simp
  moreover have "update_divisor ma \<noteq> 0" using sound_divisor(2) [OF assms] by simp
  ultimately show ?thesis
    using assms buf by (simp add: MA_update_unfold sound_def)
qed

lemma sound_updates:
  "sound n ma \<Longrightarrow> \<exists>ma' rs. MA_updates T ma vals = Inr (ma', rs) \<and> sound n ma'"
proof (induction vals arbitrary: ma)
  case Nil
  then show ?case by simp
next
  case (Cons v vals)
  from sound_update [OF Cons.prems, of T v]
  obtain ma1 r where 1: "MA_update T ma v = Inr (ma1, r)" "sound n ma1" by blast
  from Cons.IH [OF 1(2)]
  obtain ma2 rs where 2: "MA_updates T ma1 vals = Inr (ma2, rs)" "sound n ma2" by blast
  show ?case using 1 2 by simp
qed

lemma sound_MA_r2: "1 \<le> n \<Longrightarrow> n < 65536 \<Longrightarrow> sound n (MA_r2 T junk n init)"
  by (simp add: sound_def MA_r2_def Let_def length_fill length_new_array memset0_def)

lemma sound_MA_r3: "1 \<le> n \<Longrightarrow> n < 65536 \<Longrightarrow> sound n (MA_r3 T junk n init)"
  by (simp add: sound_def MA_r3_def Let_def length_fill length_new_array memset0_def)

lemma sound_MA_r1: "1 \<le> n \<Longrightarrow> n < 65536 \<Longrightarrow> sound n (MA_r1 T junk n init)"
  by (cases "init = 0") (simp_all add: MA_r1_seeded MA_r1_unseeded sound_def length_new_array max_def)

section \<open>The running sum\<close>

lemma sum_inv_seeded:
  "1 \<le> n \<Longrightarrow> n < 65536 \<Longrightarrow>
   sum_inv n \<lparr>m_n = n, m_data = Some (replicate n v), m_index = 0, m_sum = i32 (v * int n),
              m_filled = True, m_value = v\<rparr>"
  by (simp add: sum_inv_def sound_def sum_list_replicate_int)

lemma sum_inv_MA_r3:
  assumes "1 \<le> n" "n < 65536" "1 \<le> sizeof T"
  shows "sum_inv n (MA_r3 T junk n init)"
proof (cases "init = 0")
  case True
  have "i32 0 = 0" by (simp add: i32_def)
  then show ?thesis
    using assms True by (simp add: MA_r3_unseeded sum_inv_def sound_def sum_list_replicate_int)
next
  case False
  then show ?thesis using assms by (simp add: MA_r3_seeded sum_inv_seeded)
qed

lemma sum_inv_setValue:
  assumes "sum_inv n ma"
  shows "\<exists>ma'. MA_setValue ma val = Inr ma' \<and> sum_inv n ma'"
proof -
  from assms obtain buf where buf: "m_data ma = Some buf" "length buf = n" "m_n ma = n"
    and n: "1 \<le> n" "n < 65536"
    by (auto simp: sum_inv_def sound_def)
  have "MA_setValue ma val = Inr (ma\<lparr>m_data := Some (replicate n val),
          m_sum := i32 (val * int n), m_filled := True, m_value := val\<rparr>)"
    using buf by (simp add: MA_setValue_def fill_all)
  moreover have "sum_inv n (ma\<lparr>m_data := Some (replicate n val),
          m_sum := i32 (val * int n), m_filled := True, m_value := val\<rparr>)"
    using assms buf n by (simp add: sum_inv_def sound_def sum_list_replicate_int)
  ultimately show ?thesis by simp
qed

lemma sum_inv_update:
  assumes "sum_inv n ma"
  shows "\<exists>ma' r. MA_update T ma val = Inr (ma', r) \<and> sum_inv n ma'"
proof -
  from assms have snd: "sound n ma" and idx: "m_index ma \<le> n" by (auto simp: sum_inv_def)
  from assms obtain buf where buf: "m_data ma = Some buf" "m_sum ma = i32 (sum_list buf)"
    and tail: "m_filled ma \<or> drop (m_index ma) buf = replicate (n - m_index ma) 0"
    by (auto simp: sum_inv_def)
  have n: "1 \<le> n" "n < 65536" "m_n ma = n" "length buf = n"
    using snd buf by (auto simp: sound_def)
  let ?i = "update_slot ma"
  have i: "?i < n" by (rule sound_slot [OF snd])
  have d: "update_divisor ma \<noteq> 0" using sound_divisor(2) [OF snd] by simp
  have i16: "u16 (Suc ?i) = Suc ?i" using i n by (simp add: u16_def)
  define s' where "s' = i32 (m_sum ma - buf ! ?i + val)"
  define v where "v = conv T (s' sdiv update_divisor ma)"
  define ma' where "ma' = \<lparr>m_n = n, m_data = Some (buf[?i := val]), m_index = ?i + 1,
      m_sum = s', m_filled = (n \<le> m_index ma \<or> m_filled ma), m_value = v\<rparr>"
  have step: "MA_update T ma val = Inr (ma', v)"
    using buf n i d by (simp add: MA_update_unfold ma'_def v_def s'_def i16)
  have "s' = i32 (i32 (sum_list buf) - buf ! ?i + val)" by (simp add: s'_def buf)
  also have "\<dots> = i32 (sum_list buf - buf ! ?i + val)"
    by (metis i32_add i32_diff i32_idem)
  also have "sum_list buf - buf ! ?i + val = sum_list (buf[?i := val])"
    using i n by (simp add: sum_list_update_int)
  finally have sum': "s' = i32 (sum_list (buf[?i := val]))" .
  have tail': "drop (?i + 1) (buf[?i := val]) = replicate (n - (?i + 1)) 0"
    if nf: "\<not> (n \<le> m_index ma \<or> m_filled ma)"
  proof -
    from nf have eq: "?i = m_index ma" by (simp add: update_slot_def n)
    from nf tail have "drop ?i buf = replicate (n - ?i) 0" by (simp add: eq)
    then have "drop (Suc ?i) buf = replicate (n - Suc ?i) 0"
      by (metis drop_Suc drop_replicate tl_drop)
    then show ?thesis by simp
  qed
  have "sum_inv n ma'"
    unfolding sum_inv_def sound_def ma'_def using n i sum' tail' by auto
  with step show ?thesis by blast
qed

lemma reachable_sum_inv:
  "reachable T n ma \<Longrightarrow> 1 \<le> sizeof T \<Longrightarrow> sum_inv n ma"
proof (induction rule: reachable.induct)
  case (constructed init junk)
  then show ?case by (simp add: sum_inv_MA_r3)
next
  case (updated ma val ma' r)
  then show ?case using sum_inv_update [of n ma T val] by auto
next
  case (value_set ma val ma')
  then show ?case using sum_inv_setValue [of n ma val] by auto
qed

lemma sum_inv_stored_sum:
  assumes "sum_inv n ma"
  shows "m_sum ma = i32 (stored_sum ma)"
proof -
  from assms obtain buf where buf: "m_data ma = Some buf" "m_sum ma = i32 (sum_list buf)"
    and tail: "m_filled ma \<or> drop (m_index ma) buf = replicate (n - m_index ma) 0"
    and n: "m_n ma = n" "length buf = n"
    by (auto simp: sum_inv_def sound_def)
  have "sum_list (take (samples_held ma) buf) = sum_list buf"
  proof (cases "m_filled ma")
    case True
    then show ?thesis using n by (simp add: samples_held_def)
  next
    case False
    with tail have "sum_list (drop (m_index ma) buf) = 0" by (simp add: sum_list_replicate_int)
    moreover have "sum_list buf = sum_list (take (m_index ma) buf) + sum_list (drop (m_index ma) buf)"
      by (metis append_take_drop_id sum_list_append)
    ultimately show ?thesis using False by (simp add: samples_held_def)
  qed
  then show ?thesis using buf by (simp add: stored_sum_def)
qed

section \<open>The ring buffer\<close>

lemma ring_step_filling:
  assumes inv: "ring_inv n vs ma" and k: "length vs < n"
  shows "\<exists>ma'. MA_update T ma v = Inr (ma', conv T (window_mean n (vs @ [v])))
           \<and> ring_inv n (vs @ [v]) ma' \<and> m_value ma' = conv T (window_mean n (vs @ [v]))"
proof -
  from inv have snd: "sound n ma" by (simp add: ring_inv_def)
  then have n: "1 \<le> n" "n < 65536" "m_n ma = n" by (auto simp: sound_def)
  define buf where "buf = vs @ replicate (n - length vs) (0::int)"
  from inv k have st: "m_index ma = length vs" "\<not> m_filled ma" "m_data ma = Some buf"
    "m_sum ma = i32 (sum_list vs)"
    by (simp_all add: ring_inv_def buf_def newest_short)
  have slot: "update_slot ma = length vs" using st k n by (simp add: update_slot_def)
  have dv: "update_divisor ma = int (length vs) + 1"
    using sound_divisor(1) [OF snd] st k n by simp
  have rd: "buf ! length vs = 0" using k by (simp add: buf_def nth_append)
  have wr: "buf[length vs := v] = (vs @ [v]) @ replicate (n - Suc (length vs)) 0"
  proof -
    have "replicate (n - length vs) (0::int) = 0 # replicate (n - Suc (length vs)) 0"
      using k by (metis Suc_diff_Suc replicate_Suc)
    then show ?thesis by (simp add: buf_def list_update_append)
  qed
  have i16: "u16 (Suc (length vs)) = Suc (length vs)" using k n by (simp add: u16_def)
  have sm: "i32 (i32 (sum_list vs) + v) = i32 (sum_list (vs @ [v]))"
  proof -
    have "i32 (i32 (sum_list vs) + v) = i32 (sum_list vs + v)"
      by (metis i32_add i32_idem)
    then show ?thesis by simp
  qed
  have wm: "window_mean n (vs @ [v]) = i32 (sum_list (vs @ [v])) sdiv (int (length vs) + 1)"
    using k by (simp add: window_mean_def newest_short min_def add.commute)
  define ma' where "ma' = \<lparr>m_n = n, m_data = Some ((vs @ [v]) @ replicate (n - Suc (length vs)) 0),
      m_index = Suc (length vs), m_sum = i32 (sum_list (vs @ [v])), m_filled = False,
      m_value = conv T (window_mean n (vs @ [v]))\<rparr>"
  have len: "length buf = n" using k by (simp add: buf_def)
  have step: "MA_update T ma v = Inr (ma', conv T (window_mean n (vs @ [v])))"
    unfolding MA_update_unfold ma'_def
    using st n k len by (simp add: slot dv rd wr i16 sm wm del: sum_list_append)
  have "ring_inv n (vs @ [v]) ma'"
  proof (cases "Suc (length vs) < n")
    case True
    then show ?thesis
      using n by (simp add: ring_inv_def ma'_def sound_def newest_short)
  next
    case False
    with k have e: "Suc (length vs) = n" by simp
    then have "newest n (vs @ [v]) = vs @ [v]" by (simp add: newest_short)
    then show ?thesis
      using n e by (simp add: ring_inv_def ma'_def sound_def)
  qed
  moreover have "m_value ma' = conv T (window_mean n (vs @ [v]))" by (simp add: ma'_def)
  ultimately show ?thesis using step by blast
qed

lemma ring_step_full:
  assumes inv: "ring_inv n vs ma" and k: "n \<le> length vs"
  shows "\<exists>ma'. MA_update T ma v = Inr (ma', conv T (window_mean n (vs @ [v])))
           \<and> ring_inv n (vs @ [v]) ma' \<and> m_value ma' = conv T (window_mean n (vs @ [v]))"
proof -
  from inv have snd: "sound n ma" by (simp add: ring_inv_def)
  then have n: "1 \<le> n" "n < 65536" "m_n ma = n" by (auto simp: sound_def)
  define W where "W = newest n vs"
  have lenW: "length W = n" using k by (simp add: W_def length_newest)
  then obtain x ws where W: "W = x # ws" and lws: "length ws = n - 1"
    using n by (cases W) auto
  from inv k have st: "1 \<le> m_index ma" "m_index ma \<le> n" "m_filled ma \<or> m_index ma = n"
    "m_data ma = Some (drop (n - m_index ma) W @ take (n - m_index ma) W)"
    "m_sum ma = i32 (sum_list W)"
    by (simp_all add: ring_inv_def W_def)
  define i where "i = update_slot ma"
  have i: "i < n" unfolding i_def by (rule sound_slot [OF snd])
  have buf: "m_data ma = Some (drop (n - i) W @ take (n - i) W)"
  proof (cases "m_index ma = n")
    case True
    then have "i = 0" by (simp add: i_def update_slot_def n)
    then show ?thesis using st True lenW by simp
  next
    case False
    then have "i = m_index ma" using st by (simp add: i_def update_slot_def n)
    then show ?thesis using st by simp
  qed
  define buf where "buf = drop (n - i) W @ take (n - i) W"
  have len: "length buf = n" using lenW i by (simp add: buf_def)
  have rd: "buf ! i = x" unfolding buf_def W by (rule rot_step(1) [OF lws i])
  have wr: "buf[i := v] = drop (n - Suc i) (ws @ [v]) @ take (n - Suc i) (ws @ [v])"
    unfolding buf_def W by (rule rot_step(2) [OF lws i])
  have fl: "n \<le> m_index ma \<or> m_filled ma" using st by auto
  have dv: "update_divisor ma = int n" using sound_divisor(1) [OF snd] fl n by simp
  have i16: "u16 (Suc i) = Suc i" using i n by (simp add: u16_def)
  have W': "newest n (vs @ [v]) = ws @ [v]"
    using newest_snoc [OF k n(1), of v] by (simp add: W_def [symmetric] W)
  have sm: "i32 (i32 (sum_list W) - x + v) = i32 (sum_list (ws @ [v]))"
  proof -
    have "i32 (i32 (sum_list W) - x + v) = i32 (sum_list W - x + v)"
      by (metis i32_add i32_diff i32_idem)
    then show ?thesis by (simp add: W)
  qed
  have wm: "window_mean n (vs @ [v]) = i32 (sum_list (ws @ [v])) sdiv int n"
    using k by (simp add: window_mean_def W' min_def)
  define ma' where "ma' = \<lparr>m_n = n,
      m_data = Some (drop (n - Suc i) (ws @ [v]) @ take (n - Suc i) (ws @ [v])),
      m_index = Suc i, m_sum = i32 (sum_list (ws @ [v])), m_filled = True,
      m_value = conv T (window_mean n (vs @ [v]))\<rparr>"
  have step: "MA_update T ma v = Inr (ma', conv T (window_mean n (vs @ [v])))"
    unfolding MA_update_unfold ma'_def
    using st(5) n len fl i buf
    by (simp add: buf_def [symmetric] i_def [symmetric] dv rd wr i16 sm wm del: sum_list_append)
  have "ring_inv n (vs @ [v]) ma'"
    using n k i lws by (simp add: ring_inv_def ma'_def sound_def W')
  moreover have "m_value ma' = conv T (window_mean n (vs @ [v]))" by (simp add: ma'_def)
  ultimately show ?thesis using step by blast
qed

lemma ring_step:
  assumes "ring_inv n vs ma"
  shows "\<exists>ma'. MA_update T ma v = Inr (ma', conv T (window_mean n (vs @ [v])))
           \<and> ring_inv n (vs @ [v]) ma' \<and> m_value ma' = conv T (window_mean n (vs @ [v]))"
  using ring_step_filling [OF assms] ring_step_full [OF assms] by (cases "length vs < n") auto

lemma ring_run:
  "ring_inv n hist ma \<Longrightarrow> vals \<noteq> [] \<Longrightarrow>
   \<exists>ma' rs. MA_updates T ma vals = Inr (ma', rs) \<and> ring_inv n (hist @ vals) ma'
      \<and> rs \<noteq> [] \<and> last rs = conv T (window_mean n (hist @ vals))
      \<and> m_value ma' = conv T (window_mean n (hist @ vals))"
proof (induction vals arbitrary: hist ma)
  case Nil
  then show ?case by simp
next
  case (Cons v vals)
  from ring_step [OF Cons.prems(1), of T v]
  obtain ma1 where 1: "MA_update T ma v = Inr (ma1, conv T (window_mean n (hist @ [v])))"
    "ring_inv n (hist @ [v]) ma1" "m_value ma1 = conv T (window_mean n (hist @ [v]))"
    by blast
  show ?case
  proof (cases "vals = []")
    case True
    then show ?thesis using 1 by simp
  next
    case False
    from Cons.IH [OF 1(2) False]
    obtain ma2 rs where 2: "MA_updates T ma1 vals = Inr (ma2, rs)"
      "ring_inv n ((hist @ [v]) @ vals) ma2" "rs \<noteq> []"
      "last rs = conv T (window_mean n ((hist @ [v]) @ vals))"
      "m_value ma2 = conv T (window_mean n ((hist @ [v]) @ vals))"
      by blast
    then show ?thesis using 1 by simp
  qed
qed

lemma ring_inv_start:
  assumes "1 \<le> n" "n < 65536" "1 \<le> sizeof T"
  shows "ring_inv n [] (MA_r3 T junk n 0)"
proof -
  have "i32 0 = 0" by (simp add: i32_def)
  then show ?thesis
    using assms by (simp add: MA_r3_unseeded ring_inv_def sound_def newest_def)
qed

section \<open>The sliding window: partial fill and steady state\<close>

lemma replicate_2: "replicate 2 x = [x, x]"
  by (simp add: numeral_2_eq_2)

lemma replicate_3: "replicate 3 x = [x, x, x]"
  by (simp add: numeral_3_eq_3)

lemmas MA_eval = MA_update_unfold update_slot_def update_divisor_def i32_def u16_def

lemma unseeded_run:
  assumes "1 \<le> c" "c < 65536" "1 \<le> sizeof T" "vals \<noteq> []"
  shows "last_result (MA_updates T (MA_r3 T junk c 0) vals) = Some (conv T (window_mean c vals))"
    and "value_after (MA_updates T (MA_r3 T junk c 0) vals) = Some (conv T (window_mean c vals))"
proof -
  from ring_run [OF ring_inv_start [OF assms(1-3)] assms(4), of T junk]
  obtain ma' rs where r: "MA_updates T (MA_r3 T junk c 0) vals = Inr (ma', rs)" "rs \<noteq> []"
    "last rs = conv T (window_mean c vals)" "m_value ma' = conv T (window_mean c vals)"
    by auto
  show "last_result (MA_updates T (MA_r3 T junk c 0) vals) = Some (conv T (window_mean c vals))"
    using r by (simp add: last_result_def)
  show "value_after (MA_updates T (MA_r3 T junk c 0) vals) = Some (conv T (window_mean c vals))"
    using r by (simp add: value_after_def MA_getValue_def)
qed

lemma window_mean_exact:
  assumes "vals \<noteq> []" "\<forall>v\<in>set vals. in_range T v"
    and "in_range (Signed 32) (sum_list (newest c vals))" "1 \<le> c"
  shows "conv T (window_mean c vals) = mean (newest c vals)"
proof -
  have "i32 (sum_list (newest c vals)) = sum_list (newest c vals)"
    using assms(3) by (simp add: i32_small)
  then have "window_mean c vals = mean (newest c vals)"
    by (simp add: window_mean_def mean_def length_newest min.commute)
  moreover have "newest c vals \<noteq> []"
  proof -
    have "0 < min c (length vals)" using assms(1,4) by simp
    then have "0 < length (newest c vals)" by (simp only: length_newest)
    then show ?thesis by auto
  qed
  moreover have "\<forall>v\<in>set (newest c vals). in_range T v"
    using assms(2) by (auto simp: newest_def dest: in_set_dropD)
  ultimately show ?thesis
    using mean_in_range [of "newest c vals" T] by (simp add: conv_in_range)
qed

lemma narrow_samples_fit:
  assumes "w \<le> 16" "\<forall>v\<in>set vs. in_range (Signed w) v" "length vs < 65536"
  shows "in_range (Signed 32) (sum_list vs)"
proof -
  have "(2::int) ^ (w - 1) \<le> 2 ^ 15"
    using assms(1) by (intro power_increasing) simp_all
  then have "\<forall>v\<in>set vs. - 32768 \<le> v \<and> v \<le> 32767"
    using assms(2) by fastforce
  from sum_list_bounds [OF this]
  have "- 32768 * int (length vs) \<le> sum_list vs" "sum_list vs \<le> 32767 * int (length vs)"
    by simp_all
  moreover have "int (length vs) \<le> 65535" using assms(3) by simp
  ultimately show ?thesis by simp
qed

text \<open>
  C1 (as amended): for an integer sample type of at least 8 bits, a capacity \<open>c\<close>
  from 1 to 65535 and \<open>k \<le> c\<close> values of that type pushed into an unseeded object
  (latest revision), the \<open>k\<close>-th \<open>update\<close> returns, and \<open>getValue\<close> then gives, the
  truncated mean of the \<open>k\<close> values, provided their sum is representable in the
  \<open>int32_t\<close> accumulator.
\<close>

theorem partial_fill_mean:
  assumes "1 \<le> c" "c < 65536" "1 \<le> sizeof T"
    and "vals \<noteq> []" "length vals \<le> c"
    and "\<forall>v\<in>set vals. in_range T v"
    and "in_range (Signed 32) (sum_list vals)"
  shows "last_result (MA_updates T (MA_r3 T junk c 0) vals) = Some (mean vals)
       \<and> value_after (MA_updates T (MA_r3 T junk c 0) vals) = Some (mean vals)"
proof -
  have "newest c vals = vals" using assms(5) by (simp add: newest_short)
  then have "conv T (window_mean c vals) = mean vals"
    using window_mean_exact [of vals T c] assms by simp
  then show ?thesis
    using unseeded_run [OF assms(1-4), of junk] by simp
qed

text \<open>Two pushes into a capacity of 3: the mean of -7 and 0 is -3, truncated towards zero.\<close>

theorem partial_fill_mean_witness:
  "last_result (MA_updates (Signed 16) (MA_r3 (Signed 16) stale 3 0) [- 7, 0]) = Some (- 3)
   \<and> value_after (MA_updates (Signed 16) (MA_r3 (Signed 16) stale 3 0) [- 7, 0]) = Some (- 3)"
  using partial_fill_mean [of 3 "Signed 16" "[- 7, 0]" stale]
  by (simp add: mean_def)

text \<open>
  With 32-bit samples the sum of two values can leave the accumulator's range: the
  second \<open>update\<close> then returns -1 instead of the mean 2147483647.
\<close>

theorem partial_fill_overflow:
  "last_result (MA_updates (Signed 32) (MA_r3 (Signed 32) stale 2 0) [2147483647, 2147483647])
     \<noteq> Some (mean [2147483647, 2147483647])"
  by (simp add: MA_r3_unseeded replicate_2 MA_eval last_result_def mean_def)

lemma r1_reads_uninitialised:
  "results (MA_updates (Signed 16) (MA_r1 (Signed 16) stale 3 0) [10]) = Some [- 67]"
  by (simp add: MA_r1_unseeded new_array_def upt_conv_Cons stale_def MA_eval results_def)

text \<open>
  C2 (as amended): after \<open>m \<ge> c\<close> values have been pushed into an unseeded object,
  \<open>getValue\<close> and the last \<open>update\<close> give the truncated mean of the \<open>c\<close> most recent
  values, provided the sum of those \<open>c\<close> values is representable in the \<open>int32_t\<close>
  accumulator; with \<open>int\<close> samples and capacity 3, pushing 10, 20, 30, 40 returns
  10, 15, 20, 30.
\<close>

theorem window_mean_after_fill:
  "(1 \<le> c \<and> c < 65536 \<and> 1 \<le> sizeof T \<and> c \<le> length vals
      \<and> (\<forall>v\<in>set vals. in_range T v) \<and> in_range (Signed 32) (sum_list (newest c vals))
    \<longrightarrow> value_after (MA_updates T (MA_r3 T junk c 0) vals) = Some (mean (newest c vals))
        \<and> last_result (MA_updates T (MA_r3 T junk c 0) vals) = Some (mean (newest c vals)))
   \<and> results (MA_updates (Signed 32) (MA_r3 (Signed 32) junk 3 0) [10, 20, 30, 40])
       = Some [10, 15, 20, 30]"
proof (intro conjI impI)
  assume a: "1 \<le> c \<and> c < 65536 \<and> 1 \<le> sizeof T \<and> c \<le> length vals
      \<and> (\<forall>v\<in>set vals. in_range T v) \<and> in_range (Signed 32) (sum_list (newest c vals))"
  then have ne: "vals \<noteq> []" by auto
  have "conv T (window_mean c vals) = mean (newest c vals)"
    using window_mean_exact [of vals T c] a ne by simp
  then show "value_after (MA_updates T (MA_r3 T junk c 0) vals) = Some (mean (newest c vals))"
    and "last_result (MA_updates T (MA_r3 T junk c 0) vals) = Some (mean (newest c vals))"
    using unseeded_run [of c T vals junk] a ne by simp_all
next
  show "results (MA_updates (Signed 32) (MA_r3 (Signed 32) junk 3 0) [10, 20, 30, 40])
       = Some [10, 15, 20, 30]"
    by (simp add: MA_r3_unseeded replicate_3 MA_eval results_def)
qed

theorem window_mean_after_fill_witness:
  "value_after (MA_updates (Signed 32) (MA_r3 (Signed 32) stale 3 0) [10, 20, 30, 40]) = Some 30
   \<and> last_result (MA_updates (Signed 32) (MA_r3 (Signed 32) stale 3 0) [10, 20, 30, 40]) = Some 30"
  using window_mean_after_fill [where c = 3 and T = "Signed 32" and vals = "[10, 20, 30, 40]"
          and junk = stale]
  by (simp add: mean_def newest_def)

theorem window_overflow:
  "value_after (MA_updates (Signed 32) (MA_r3 (Signed 32) stale 2 0) [1, 2147483647, 2147483647])
     \<noteq> Some (mean (newest 2 [1, 2147483647, 2147483647]))"
  by (simp add: MA_r3_unseeded replicate_2 MA_eval value_after_def MA_getValue_def mean_def newest_def)

section \<open>Seeded construction and the capacity\<close>

lemma seeded_state_r2_r3:
  assumes "init \<noteq> 0" "1 \<le> c" "ma = MA_r2 T junk c init \<or> ma = MA_r3 T junk c init"
  shows "m_data ma = Some (replicate c init) \<and> m_sum ma = i32 (init * int c)
       \<and> m_filled ma \<and> MA_getValue ma = init \<and> m_n ma = c"
  using assms by (auto simp: MA_r2_seeded MA_r3_seeded MA_getValue_def max_def)

lemma seeded_sum_exact:
  "in_range (Signed 32) (init * int c) \<Longrightarrow> i32 (init * int c) = init * int c"
  by (simp add: i32_small)

lemma seeded_state_r1:
  assumes "init \<noteq> 0" "1 \<le> c"
  shows "m_data (MA_r1 T junk c init) = Some (replicate c init)
       \<and> m_sum (MA_r1 T junk c init) = i32 (init * int c) \<and> m_filled (MA_r1 T junk c init)"
  using assms by (simp add: MA_r1_seeded max_def)

text \<open>
  C3: in the oldest revision (\<open>src/MakerMatty_MA.h\<close>) the constructor never assigns
  the cached value, so after \<open>MA<int16_t>(3, 7)\<close> \<open>getValue()\<close> is 0, not the seed 7;
  the two later revisions cache the seed.
\<close>

theorem r1_seed_not_cached:
  "MA_getValue (MA_r1 (Signed 16) stale 3 7) = 0
   \<and> MA_getValue (MA_r1 (Signed 16) stale 3 7) \<noteq> 7
   \<and> m_data (MA_r1 (Signed 16) stale 3 7) = Some [7, 7, 7]
   \<and> m_sum (MA_r1 (Signed 16) stale 3 7) = 21
   \<and> m_filled (MA_r1 (Signed 16) stale 3 7)
   \<and> MA_getValue (MA_r2 (Signed 16) stale 3 7) = 7
   \<and> MA_getValue (MA_r3 (Signed 16) stale 3 7) = 7"
  by (simp add: MA_r1_seeded MA_r2_seeded MA_r3_seeded MA_getValue_def replicate_3 i32_def)

lemma clamp_r1_r2:
  assumes "ma = MA_r1 T junk len init \<or> ma = MA_r2 T junk len init"
  shows "m_n ma = max len 1 \<and> map_option length (m_data ma) = Some (max len 1)"
  using assms
  by (cases "init = 0")
     (auto simp: MA_r1_seeded MA_r1_unseeded MA_r2_def Let_def max_def
        length_new_array length_fill memset0_def)

lemma r2_clears_bytes_not_elements:
  "m_data (MA_r2 (Signed 16) stale 3 0) = Some [0, 0, 77]"
  by (simp add: MA_r2_def new_array_def memset0_def clear_low_bytes_def stale_def upt_conv_Cons)

text \<open>
  C5: the latest revision takes the requested length as it is: \<open>MA<T>(0)\<close> has
  capacity 0 and an array of no elements, and its first \<open>update\<close> indexes outside the
  array.  The two earlier revisions clamp the length to 1 (\<open>clamp_r1_r2\<close>).
\<close>

theorem r3_capacity_0_not_clamped:
  "m_n (MA_r3 T junk 0 init) = 0
   \<and> m_data (MA_r3 T junk 0 init) = Some []
   \<and> MA_update T (MA_r3 T junk 0 init) val = Inl OutOfBounds"
  by (simp add: MA_r3_def MA_update_def new_array_def fill_def memset0_def Let_def)

section \<open>Safety of update\<close>

text \<open>
  C10: for a capacity \<open>c\<close> from 1 to 65535, an object built by any of the three
  constructors and any sequence of \<open>update\<close> calls: no call faults (no index outside
  the array, no division by zero), the array keeps \<open>c\<close> elements, and in the state
  reached the slot of the next call is below \<open>c\<close> and its divisor is at least 1.
\<close>

theorem update_is_safe:
  assumes "1 \<le> c" "c < 65536"
    and "ma0 = MA_r1 T junk c init \<or> ma0 = MA_r2 T junk c init \<or> ma0 = MA_r3 T junk c init"
  shows "\<exists>ma rs. MA_updates T ma0 vals = Inr (ma, rs)
           \<and> map_option length (m_data ma) = Some c
           \<and> update_slot ma < c \<and> 1 \<le> update_divisor ma"
proof -
  have "sound c ma0"
    using assms sound_MA_r1 sound_MA_r2 sound_MA_r3 by blast
  from sound_updates [OF this, of T vals]
  obtain ma rs where r: "MA_updates T ma0 vals = Inr (ma, rs)" "sound c ma" by blast
  then show ?thesis
    using sound_slot [OF r(2)] sound_divisor(2) [OF r(2)] by (auto simp: sound_def)
qed

theorem update_is_safe_witness:
  "results (MA_updates (Signed 16) (MA_r3 (Signed 16) stale 3 0) [10, 20, 30, 40]) \<noteq> None"
  using update_is_safe [of 3 "MA_r3 (Signed 16) stale 3 0" "Signed 16" stale 0 "[10, 20, 30, 40]"]
  by (auto simp: results_def)

section \<open>The running sum and the stored values\<close>

text \<open>
  C9 (as amended): in every reachable state of an object of the latest revision with
  capacity from 1 to 65535 and a sample type of at least 8 bits, the running sum is
  the sum of the stored values of the window reduced to \<open>int32_t\<close>; it is that sum
  exactly whenever the sum is representable in \<open>int32_t\<close>.
\<close>

theorem running_sum_invariant:
  assumes "reachable T c ma" "1 \<le> sizeof T"
  shows "m_sum ma = i32 (stored_sum ma)
       \<and> (in_range (Signed 32) (stored_sum ma) \<longrightarrow> m_sum ma = stored_sum ma)"
  using sum_inv_stored_sum [OF reachable_sum_inv [OF assms]] by (simp add: i32_small)

theorem running_sum_invariant_witness:
  "reachable (Signed 16) 3 (MA_r3 (Signed 16) stale 3 5)
   \<and> m_sum (MA_r3 (Signed 16) stale 3 5) = 15
   \<and> stored_sum (MA_r3 (Signed 16) stale 3 5) = 15"
proof -
  have r: "reachable (Signed 16) 3 (MA_r3 (Signed 16) stale 3 5)"
    by (rule reachable.constructed) simp_all
  have s: "stored_sum (MA_r3 (Signed 16) stale 3 5) = 15"
    by (simp add: MA_r3_seeded stored_sum_def samples_held_def replicate_3)
  show ?thesis
    using running_sum_invariant [OF r] r s by simp
qed

text \<open>
  Seeding four 32-bit slots with \<open>2 ^ 30\<close> stores values whose sum is \<open>2 ^ 32\<close>, while
  the running sum is 0.
\<close>

theorem running_sum_wraps:
  "reachable (Signed 32) 4 (MA_r3 (Signed 32) stale 4 1073741824)
   \<and> m_sum (MA_r3 (Signed 32) stale 4 1073741824)
       \<noteq> stored_sum (MA_r3 (Signed 32) stale 4 1073741824)"
proof -
  have r: "reachable (Signed 32) 4 (MA_r3 (Signed 32) stale 4 1073741824)"
    by (rule reachable.constructed) simp_all
  have "replicate 4 (1073741824::int) = [1073741824, 1073741824, 1073741824, 1073741824]"
    by (simp add: numeral_eq_Suc)
  then have "m_sum (MA_r3 (Signed 32) stale 4 1073741824)
       \<noteq> stored_sum (MA_r3 (Signed 32) stale 4 1073741824)"
    by (simp add: MA_r3_seeded stored_sum_def samples_held_def i32_def)
  with r show ?thesis by simp
qed

text \<open>
  The stored values are values of the sample type; for a signed type of at most 16
  bits their sum over at most 65535 slots cannot leave the accumulator's range.
\<close>

lemma in_range_0: "in_range T 0"
  by (cases T) simp_all

lemma reachable_in_range:
  assumes "reachable T c ma" "1 \<le> sizeof T"
  shows "\<exists>buf. m_data ma = Some buf \<and> length buf = c \<and> (\<forall>v\<in>set buf. in_range T v)"
  using assms
proof (induction rule: reachable.induct)
  case (constructed init junk)
  then show ?case
    by (cases "init = 0") (simp_all add: MA_r3_unseeded MA_r3_seeded in_range_0)
next
  case (updated ma val ma' r)
  then obtain buf where buf: "m_data ma = Some buf" "length buf = c" "\<forall>v\<in>set buf. in_range T v"
    by auto
  from updated.hyps(3) buf have "m_data ma' = Some (buf[update_slot ma := val])"
    by (auto simp: MA_update_unfold split: if_splits)
  moreover have "\<forall>v\<in>set (buf[update_slot ma := val]). in_range T v"
    using buf(3) updated.hyps(2) set_update_subset_insert [of buf "update_slot ma" val] by auto
  ultimately show ?case using buf(2) by simp
next
  case (value_set ma val ma')
  then obtain buf where buf: "m_data ma = Some buf" "length buf = c" by auto
  have "m_n ma = c"
    using reachable_sum_inv [OF value_set.hyps(1) value_set.prems] by (simp add: sum_inv_def sound_def)
  with value_set.hyps(3) buf have "m_data ma' = Some (replicate c val)"
    by (auto simp: MA_setValue_def fill_all split: if_splits)
  then show ?case using value_set.hyps(2) by simp
qed

lemma running_sum_exact_16:
  assumes "reachable (Signed w) c ma" "8 \<le> w" "w \<le> 16"
  shows "m_sum ma = stored_sum ma"
proof -
  have sz: "1 \<le> sizeof (Signed w)" using assms(2) by simp
  from reachable_in_range [OF assms(1) sz]
  obtain buf where buf: "m_data ma = Some buf" "length buf = c"
    "\<forall>v\<in>set buf. in_range (Signed w) v" by blast
  have c: "c < 65536"
    using reachable_sum_inv [OF assms(1) sz] by (simp add: sum_inv_def sound_def)
  have "\<forall>v\<in>set (take (samples_held ma) buf). in_range (Signed w) v"
    using buf(3) by (auto dest: in_set_takeD)
  moreover have "length (take (samples_held ma) buf) < 65536" using buf(2) c by simp
  ultimately have "in_range (Signed 32) (sum_list (take (samples_held ma) buf))"
    using narrow_samples_fit [OF assms(3)] by blast
  then have "in_range (Signed 32) (stored_sum ma)" by (simp add: stored_sum_def buf)
  then show ?thesis
    using sum_inv_stored_sum [OF reachable_sum_inv [OF assms(1) sz]] by (simp add: i32_small)
qed

section \<open>Moving an object\<close>

text \<open>
  C8 (as amended): the move constructor, and move assignment between two distinct
  objects, give the destination every member of the source, so that its \<open>getValue()\<close>
  is the source's before the move, and leave the source as a default-constructed
  object (capacity 0, null array, index and sum 0, not filled, value 0); move
  assignment of an object to itself changes nothing.
\<close>

theorem move_transfers:
  "fst (MA_move src) = src
   \<and> MA_getValue (fst (MA_move src)) = MA_getValue src
   \<and> snd (MA_move src) = MA_default
   \<and> (this \<noteq> other \<longrightarrow>
        MA_move_assign st this other this = st other
        \<and> MA_getValue (MA_move_assign st this other this) = MA_getValue (st other)
        \<and> MA_move_assign st this other other = MA_default)
   \<and> MA_move_assign st this this = st"
  by (simp add: MA_move_def move_members_def MA_default_def MA_move_assign_def MA_getValue_def)

theorem move_transfers_witness:
  "(1::nat) \<noteq> 0
   \<and> MA_getValue (MA_move_assign demo_store 1 0 1) = 30
   \<and> m_n (MA_move_assign demo_store 1 0 0) = 0
   \<and> m_data (MA_move_assign demo_store 1 0 0) = None"
  using move_transfers [of "demo_store 0" 1 0 demo_store]
  by (simp add: demo_store_def MA_default_def MA_getValue_def)

text \<open>Move assignment of the object at address 0 to itself leaves its capacity at 3.\<close>

theorem self_move_keeps_source:
  "m_n (MA_move_assign demo_store 0 0 0) \<noteq> 0"
  by (simp add: MA_move_assign_def demo_store_def)

section \<open>The exponential tracker\<close>

lemma EMA_r2_stores:
  "ema_n (EMA_r2 junk n val) = n \<and> ema_v0 (EMA_r2 junk n val) = val
   \<and> ema_v1 (EMA_r2 junk n val) = val \<and> ema_v2 (EMA_r2 junk n val) = val"
  by (simp add: EMA_r2_def EMA_setValue_def)

lemma EMA_r1_slots:
  "ema_v0 (EMA_r1 junk_n n val) = val \<and> ema_v1 (EMA_r1 junk_n n val) = val
   \<and> ema_v2 (EMA_r1 junk_n n val) = val"
  by (simp add: EMA_r1_def)

text \<open>
  C4: the first revision's constructor does not store the period.  For an object in
  zeroed storage, \<open>EMA(5, 2)\<close> leaves \<open>n = 0\<close>, and the smoothing constant is then
  \<open>2 / (0 + 1) = 2\<close>.  The second revision stores it (\<open>EMA_r2_stores\<close>).
\<close>

theorem EMA_r1_period_not_stored:
  "ema_n (EMA_r1 0 5 (Exact 2)) = 0
   \<and> ema_n (EMA_r1 0 5 (Exact 2)) \<noteq> 5
   \<and> smoothing small_ints (ema_n (EMA_r1 0 5 (Exact 2))) = Exact 2
   \<and> ema_n (EMA_r2 stale_f 5 (Exact 2)) = 5"
  by (simp add: EMA_r1_def EMA_r2_def EMA_setValue_def smoothing_def small_ints_def i32_def
        as_double_def as_float_def)

text \<open>
  C6: \<open>update\<close> moves the old \<open>previous\<close> to \<open>previousPrevious\<close> and the old \<open>current\<close>
  to \<open>previous\<close>, sets \<open>current\<close> to \<open>val * k + previous * (1 - k)\<close> with
  \<open>k = 2 / (n + 1)\<close>, in the arithmetic of the target whatever it is, leaves \<open>n\<close> as it
  was and returns the new \<open>current\<close>.
\<close>

theorem EMA_update_shifts_and_blends:
  "ema_v2 (fst (EMA_update a e val)) = ema_v1 e
   \<and> ema_v1 (fst (EMA_update a e val)) = ema_v0 e
   \<and> ema_v0 (fst (EMA_update a e val)) =
       d2f a (dadd a
         (f2d a (fmul a val (d2f a (ddiv a (i2d a 2) (i2d a (i32 (ema_n e + 1)))))))
         (dmul a (f2d a (ema_v1 (fst (EMA_update a e val))))
            (dsub a (i2d a 1) (f2d a (d2f a (ddiv a (i2d a 2) (i2d a (i32 (ema_n e + 1)))))))))
   \<and> snd (EMA_update a e val) = ema_v0 (fst (EMA_update a e val))
   \<and> ema_n (fst (EMA_update a e val)) = ema_n e"
  by (simp add: EMA_update_def blend_def smoothing_def Let_def)

lemma EMA_update_r1_state: "EMA_update_r1 a e val = fst (EMA_update a e val)"
  by (simp add: EMA_update_r1_def EMA_update_def Let_def)

lemma EMA_slope_curve_after_update:
  "EMA_getSlope a (fst (EMA_update a e val)) = fsub a (snd (EMA_update a e val)) (ema_v0 e)
   \<and> EMA_getCurve a (fst (EMA_update a e val)) =
       fsub a (fsub a (snd (EMA_update a e val)) (ema_v0 e)) (fsub a (ema_v0 e) (ema_v1 e))"
  by (simp add: EMA_update_def EMA_getSlope_def EMA_getCurve_def Let_def)

lemma ema_start_eq:
  "ema_start = \<lparr>ema_n = 1, ema_v0 = Exact 0, ema_v1 = Exact 0, ema_v2 = Exact 0\<rparr>"
  by (simp add: ema_start_def EMA_r2_def EMA_setValue_def)

lemma smoothing_1: "smoothing small_ints 1 = Exact 1"
  by (simp add: smoothing_def small_ints_def i32_def as_double_def as_float_def)

lemma update_5: "EMA_update small_ints ema_start (Exact 5) =
    (\<lparr>ema_n = 1, ema_v0 = Exact 5, ema_v1 = Exact 0, ema_v2 = Exact 0\<rparr>, Exact 5)"
  by (simp add: ema_start_eq EMA_update_def smoothing_1 blend_def)
     (simp add: small_ints_def as_double_def as_float_def)

lemma ema_after_5_eq:
  "ema_after_5 = \<lparr>ema_n = 1, ema_v0 = Exact 5, ema_v1 = Exact 0, ema_v2 = Exact 0\<rparr>"
  by (simp add: ema_after_5_def update_5)

lemma update_10: "EMA_update small_ints ema_after_5 (Exact 10) =
    (\<lparr>ema_n = 1, ema_v0 = Exact 10, ema_v1 = Exact 5, ema_v2 = Exact 0\<rparr>, Exact 10)"
  by (simp add: ema_after_5_eq EMA_update_def smoothing_1 blend_def)
     (simp add: small_ints_def as_double_def as_float_def)

lemma ema_after_10_eq:
  "ema_after_10 = \<lparr>ema_n = 1, ema_v0 = Exact 10, ema_v1 = Exact 5, ema_v2 = Exact 0\<rparr>"
  by (simp add: ema_after_10_def update_10)

text \<open>
  C7 (as amended): for a tracker of period 1 and seed 0, \<open>update(5)\<close> returns 5 and
  then the value is 5, the slope 5 and the curve 5; a following \<open>update(10)\<close> returns
  10 and then the value is 10, the slope 5 and the curve 0.
\<close>

theorem EMA_scenario:
  "snd (EMA_update small_ints ema_start (Exact 5)) = Exact 5
   \<and> EMA_getValue ema_after_5 = Exact 5
   \<and> EMA_getSlope small_ints ema_after_5 = Exact 5
   \<and> EMA_getCurve small_ints ema_after_5 = Exact 5
   \<and> snd (EMA_update small_ints ema_after_5 (Exact 10)) = Exact 10
   \<and> EMA_getValue ema_after_10 = Exact 10
   \<and> EMA_getSlope small_ints ema_after_10 = Exact 5
   \<and> EMA_getCurve small_ints ema_after_10 = Exact 0"
proof -
  have "snd (EMA_update small_ints ema_start (Exact 5)) = Exact 5"
    by (simp add: update_5)
  moreover have "snd (EMA_update small_ints ema_after_5 (Exact 10)) = Exact 10"
    by (simp add: update_10)
  moreover have "EMA_getValue ema_after_5 = Exact 5 \<and> EMA_getValue ema_after_10 = Exact 10"
    by (simp add: ema_after_5_eq ema_after_10_eq EMA_getValue_def)
  moreover have "EMA_getSlope small_ints ema_after_5 = Exact 5
      \<and> EMA_getCurve small_ints ema_after_5 = Exact 5"
    by (simp add: ema_after_5_eq EMA_getSlope_def EMA_getCurve_def small_ints_def as_float_def)
  moreover have "EMA_getSlope small_ints ema_after_10 = Exact 5
      \<and> EMA_getCurve small_ints ema_after_10 = Exact 0"
    by (simp add: ema_after_10_eq EMA_getSlope_def EMA_getCurve_def small_ints_def as_float_def)
  ultimately show ?thesis by simp
qed

text \<open>After the first update the curve is \<open>(5 - 0) - (0 - 0) = 5\<close>, not 0.\<close>

theorem EMA_first_curve_not_0:
  "EMA_getCurve small_ints ema_after_5 \<noteq> Exact 0"
  by (simp add: ema_after_5_eq EMA_getCurve_def small_ints_def as_float_def)

end
